theory Spec2Isabelle
  imports Main
begin

section \<open>JavaScript values used by the mining and validation code\<close>

text \<open>
  The program is JavaScript.  Three kinds of values matter for what the code does:
  \<^item> a property that holds a string, \<open>null\<close>, or is missing (\<open>undefined\<close>): the hash and
    previousHash of a block, the source of a transaction;
  \<^item> the values stored in the object that the ledger replay threads through
    \<open>Array.prototype.reduce\<close>: numbers, \<open>NaN\<close> and booleans; a key that was never written
    reads as \<open>undefined\<close>, which is \<open>None\<close> of the map;
  \<^item> the exceptions that the built-ins raise: \<open>TypeError\<close> (reading a property of
    \<open>undefined\<close> or \<open>null\<close>) and \<open>RangeError\<close> (\<open>String.prototype.repeat\<close> with a negative
    count).
  Amounts, balances, difficulty and reward are mathematical integers: the model is exact
  where JavaScript's doubles are, that is for integers of magnitude below \<open>2^53\<close>.
  Keys that name a member of \<open>Object.prototype\<close> are outside the model.
\<close>

datatype js_error = TypeError | RangeError

datatype jstr = Undefined | Null | Str string

datatype jsval = JNum int | JNaN | JBool bool

text \<open>Truthiness of a string-or-null property: only a non-empty string is truthy.\<close>

fun truthyStr :: "jstr \<Rightarrow> bool" where
  "truthyStr (Str s) = (s \<noteq> [])"
| "truthyStr Null = False"
| "truthyStr Undefined = False"

text \<open>String conversion as done by \<open>+\<close> with a string operand.\<close>

fun toStr :: "jstr \<Rightarrow> string" where
  "toStr (Str s) = s"
| "toStr Null = ''null''"
| "toStr Undefined = ''undefined''"

function natToString :: "nat \<Rightarrow> string" where
  "natToString n =
     (if n < 10 then [''0123456789'' ! n]
      else natToString (n div 10) @ [''0123456789'' ! (n mod 10)])"
  by pat_completeness auto
termination
  by (relation "measure id") auto

definition numToString :: "int \<Rightarrow> string" where
  "numToString i = (if i < 0 then CHR ''-'' # natToString (nat (- i)) else natToString (nat i))"

text \<open>Truthiness, numeric conversion and arithmetic on a value read from the replay object.\<close>

fun truthy :: "jsval option \<Rightarrow> bool" where
  "truthy None = False"
| "truthy (Some (JNum n)) = (n \<noteq> 0)"
| "truthy (Some JNaN) = False"
| "truthy (Some (JBool b)) = b"

fun toNumber :: "jsval option \<Rightarrow> int option" where
  "toNumber None = None"
| "toNumber (Some (JNum n)) = Some n"
| "toNumber (Some JNaN) = None"
| "toNumber (Some (JBool b)) = Some (if b then 1 else 0)"

definition jsGe :: "jsval option \<Rightarrow> int \<Rightarrow> bool" where
  "jsGe v a = (case toNumber v of None \<Rightarrow> False | Some n \<Rightarrow> n \<ge> a)"

definition jsAdd :: "jsval option \<Rightarrow> int \<Rightarrow> jsval" where
  "jsAdd v a = (case toNumber v of None \<Rightarrow> JNaN | Some n \<Rightarrow> JNum (n + a))"

definition jsSub :: "jsval option \<Rightarrow> int \<Rightarrow> jsval" where
  "jsSub v a = (case toNumber v of None \<Rightarrow> JNaN | Some n \<Rightarrow> JNum (n - a))"

section \<open>Data model\<close>

record transaction =
  source :: jstr
  recipient :: string
  amount :: int
  signature :: string

record block =
  transactions :: "transaction list"
  previousHash :: jstr
  nonce :: "nat option"
  hash :: jstr

record chain =
  blocks :: "block list"
  difficulty :: int
  reward :: int
  pendingTransactions :: "transaction list"

text \<open>
  The identity provider (module \<open>./signing\<close>) is an external collaborator: its three
  operations are parameters of the model.  Keys, identities and signatures are strings;
  \<open>verify\<close> answers with a boolean on every input, as its interface is specified.
\<close>

record signing =
  getPublicKey :: "string \<Rightarrow> string"
  sign :: "string \<Rightarrow> string \<Rightarrow> string"
  verify :: "jstr \<Rightarrow> string \<Rightarrow> string \<Rightarrow> bool"

text \<open>
  The hash primitive is a parameter too: a function of a block's transaction sequence,
  previousHash and nonce that yields the hexadecimal digest.
\<close>

type_synonym hashfn = "transaction list \<Rightarrow> jstr \<Rightarrow> nat option \<Rightarrow> string"

section \<open>Transactions\<close>

text \<open>
  \<open>new MineableTransaction(privateKey, recipient = null, amount)\<close>.  The recipient argument is
  \<open>None\<close> when it is omitted or \<open>null\<close>.  The signed message is built from the stored
  source and from the recipient \<^emph>\<open>argument\<close>.
\<close>

definition argStr :: "string option \<Rightarrow> string" where
  "argStr r = (case r of None \<Rightarrow> ''null'' | Some s \<Rightarrow> s)"

definition argTruthy :: "string option \<Rightarrow> bool" where
  "argTruthy r = (case r of None \<Rightarrow> False | Some s \<Rightarrow> s \<noteq> [])"

definition MineableTransaction :: "signing \<Rightarrow> string \<Rightarrow> string option \<Rightarrow> int \<Rightarrow> transaction" where
  "MineableTransaction sg privateKey rcp amt =
     (let src = (if argTruthy rcp then Str (getPublicKey sg privateKey) else Null);
          rc = (if argTruthy rcp then the rcp else getPublicKey sg privateKey)
      in \<lparr> source = src, recipient = rc, amount = amt,
           signature = sign sg privateKey (toStr src @ argStr rcp @ numToString amt) \<rparr>)"

text \<open>The message that the verifier rebuilds from the stored fields.\<close>

definition canonicalMessage :: "jstr \<Rightarrow> string \<Rightarrow> int \<Rightarrow> string" where
  "canonicalMessage src rc amt = toStr src @ rc @ numToString amt"

definition isValidTransaction :: "signing \<Rightarrow> transaction \<Rightarrow> bool" where
  "isValidTransaction sg t =
     (if amount t < 0 then False
      else verify sg (source t) (toStr (source t) @ recipient t @ numToString (amount t)) (signature t))"

section \<open>Blocks\<close>

text \<open>
  Modelled from the spec: \<open>Block.calculateHash(nonce)\<close> of module \<open>./blockchain\<close>, whose source
  is missing.  The hash of a block is the digest over its transactions, previousHash and
  nonce; the method stores the nonce and that digest in the block.
\<close>

definition calculateHash :: "hashfn \<Rightarrow> block \<Rightarrow> nat \<Rightarrow> block" where
  "calculateHash H b n =
     b\<lparr> nonce := Some n, hash := Str (H (transactions b) (previousHash b) (Some n)) \<rparr>"

text \<open>
  Modelled from the spec: \<open>Block.verifyHash()\<close> of module \<open>./blockchain\<close>, whose source is
  missing.  It recomputes the block's hash from its current contents.
\<close>

definition verifyHash :: "hashfn \<Rightarrow> block \<Rightarrow> jstr" where
  "verifyHash H b = Str (H (transactions b) (previousHash b) (nonce b))"

text \<open>\<open>new MineableBlock(transactions, previousHash)\<close>: nonce and hash are deleted.\<close>

definition MineableBlock :: "transaction list \<Rightarrow> jstr \<Rightarrow> block" where
  "MineableBlock txs prev = \<lparr> transactions = txs, previousHash = prev, nonce = None, hash = Undefined \<rparr>"

text \<open>
  Modelled from the spec: the genesis block that the constructor of \<open>Blockchain\<close> (module
  \<open>./blockchain\<close>, whose source is missing) puts in a new chain.  It has no predecessor and
  no transactions.
\<close>

definition genesisBlock :: "hashfn \<Rightarrow> block" where
  "genesisBlock H = calculateHash H \<lparr> transactions = [], previousHash = Null, nonce = None, hash = Undefined \<rparr> 0"

text \<open>
  Modelled from the spec: \<open>Blockchain.getHeadBlock()\<close> of module \<open>./blockchain\<close>, whose source
  is missing.  It returns the last block of the chain; on a chain without blocks the caller's
  read of \<open>.hash\<close> throws.
\<close>

definition getHeadBlock :: "chain \<Rightarrow> js_error + block" where
  "getHeadBlock c = (if blocks c = [] then Inl TypeError else Inr (last (blocks c)))"

section \<open>The mineable chain\<close>

definition MineableChain :: "hashfn \<Rightarrow> chain" where
  "MineableChain H = \<lparr> blocks = [genesisBlock H], difficulty = 2, reward = 5, pendingTransactions = [] \<rparr>"

definition addTransaction :: "transaction \<Rightarrow> chain \<Rightarrow> chain" where
  "addTransaction t c = c\<lparr> pendingTransactions := pendingTransactions c @ [t] \<rparr>"

text \<open>\<open>leadingZeros(str, len)\<close>: \<open>'0'.repeat(len) === str.slice(0, len)\<close>.\<close>

definition leadingZeros :: "jstr \<Rightarrow> int \<Rightarrow> js_error + bool" where
  "leadingZeros str len =
     (if len < 0 then Inl RangeError
      else case str of
             Str s \<Rightarrow> Inr (replicate (nat len) CHR ''0'' = take (nat len) s)
           | _ \<Rightarrow> Inl TypeError)"

text \<open>The loop condition of \<open>mine\<close>: \<open>newBlock.hash && leadingZeros(newBlock.hash, difficulty)\<close>.\<close>

definition hashAccepted :: "jstr \<Rightarrow> int \<Rightarrow> js_error + bool" where
  "hashAccepted h d = (if truthyStr h then leadingZeros h d else Inr False)"

text \<open>
  The proof-of-work loop.  It has no bound in the source; a search that never ends is the
  value \<open>None\<close>.
\<close>

partial_function (option) proofOfWork :: "hashfn \<Rightarrow> int \<Rightarrow> block \<Rightarrow> nat \<Rightarrow> (js_error + block) option" where
  "proofOfWork H d b i =
     (if isl (hashAccepted (hash b) d) then Some (Inl (projl (hashAccepted (hash b) d)))
      else if projr (hashAccepted (hash b) d) then Some (Inr b)
      else proofOfWork H d (calculateHash H b i) (Suc i))"

text \<open>The nonces from \<open>i\<close> up to \<open>n\<close> (excluded) all give a hash that is not accepted.\<close>

definition searched :: "hashfn \<Rightarrow> int \<Rightarrow> block \<Rightarrow> nat \<Rightarrow> nat \<Rightarrow> bool" where
  "searched H d b i n =
     list_all (\<lambda>j. hashAccepted (Str (H (transactions b) (previousHash b) (Some j))) d = Inr False)
       [i ..< n]"

text \<open>
  \<open>mine(privateKey)\<close> up to the loop: the reward transaction is pushed on the queue, the
  block is built from the queue and the head block's hash, and the queue is replaced by
  an empty one.  The result is the chain as it is when the search starts, and the new block.
  An exception leaves the chain object as it is at that moment; it is returned with the error.
\<close>

definition mineSetup :: "signing \<Rightarrow> string \<Rightarrow> chain \<Rightarrow> js_error \<times> chain + chain \<times> block" where
  "mineSetup sg privateKey c =
     (let rewardTransaction = MineableTransaction sg privateKey None (reward c);
          c1 = c\<lparr> pendingTransactions := pendingTransactions c @ [rewardTransaction] \<rparr>
      in case getHeadBlock c1 of
           Inl e \<Rightarrow> Inl (e, c1)
         | Inr headBlock \<Rightarrow> Inr (c1\<lparr> pendingTransactions := [] \<rparr>,
                         MineableBlock (pendingTransactions c1) (hash headBlock)))"

text \<open>The block that \<open>mine\<close> builds before the search, when the chain has a head block.\<close>

definition candidateBlock :: "signing \<Rightarrow> string \<Rightarrow> chain \<Rightarrow> block" where
  "candidateBlock sg privateKey c =
     MineableBlock (pendingTransactions c @ [MineableTransaction sg privateKey None (reward c)])
       (hash (last (blocks c)))"

definition mine :: "signing \<Rightarrow> hashfn \<Rightarrow> string \<Rightarrow> chain \<Rightarrow> (js_error \<times> chain + chain) option" where
  "mine sg H privateKey c =
     (case mineSetup sg privateKey c of
        Inl ec \<Rightarrow> Some (Inl ec)
      | Inr (c2, newBlock) \<Rightarrow>
          (case proofOfWork H (difficulty c2) newBlock 0 of
             None \<Rightarrow> None
           | Some (Inl e) \<Rightarrow> Some (Inl (e, c2))
           | Some (Inr b) \<Rightarrow> Some (Inr (c2\<lparr> blocks := blocks c2 @ [b] \<rparr>))))"

section \<open>Validators\<close>

definition isValidBlock :: "signing \<Rightarrow> hashfn \<Rightarrow> block \<Rightarrow> bool" where
  "isValidBlock sg H b =
     (let transactionValidity = (False \<notin> set (map (isValidTransaction sg) (transactions b)));
          blockValidity = (verifyHash H b = hash b)
      in transactionValidity \<and> blockValidity)"

definition isValidChain :: "signing \<Rightarrow> hashfn \<Rightarrow> chain \<Rightarrow> js_error + bool" where
  "isValidChain sg H c =
     (let hashes = map hash (blocks c);
          pHashes = map previousHash (blocks c);
          notNullHash = (Null \<notin> set hashes);
          validBlocks = (False \<notin> set (map (isValidBlock sg H) (blocks c)))
      in case blocks c of
           [] \<Rightarrow> Inl TypeError
         | genesis # _ \<Rightarrow>
             if previousHash genesis \<noteq> Null \<or> length (transactions genesis) \<noteq> 0 then Inr False
             else
               let matchingHashes =
                     (False \<notin> set (map (\<lambda>index. hashes ! index = pHashes ! (index + 1))
                                       [0 ..< length hashes - 1]))
               in Inr (notNullHash \<and> validBlocks \<and> matchingHashes))"

text \<open>\<open>Array.prototype.map\<close> with a callback that may throw: the first exception wins.\<close>

fun mapE :: "('a \<Rightarrow> js_error + 'b) \<Rightarrow> 'a list \<Rightarrow> js_error + 'b list" where
  "mapE f [] = Inr []"
| "mapE f (x # xs) =
     (case f x of
        Inl e \<Rightarrow> Inl e
      | Inr y \<Rightarrow> (case mapE f xs of Inl e \<Rightarrow> Inl e | Inr ys \<Rightarrow> Inr (y # ys)))"

text \<open>
  The reducer of the ledger replay.  The accumulator is one object: the balances and the
  flag \<open>isValid\<close> live in the same key space.
\<close>

type_synonym ledger = "string \<rightharpoonup> jsval"

definition initialLedger :: ledger where
  "initialLedger = [''isValid'' \<mapsto> JBool True]"

definition debitStep :: "ledger \<Rightarrow> transaction \<Rightarrow> ledger" where
  "debitStep state txn =
     (if truthyStr (source txn) then
        (if truthy (state (toStr (source txn))) \<and> jsGe (state (toStr (source txn))) (amount txn)
         then state(toStr (source txn) \<mapsto> jsSub (state (toStr (source txn))) (amount txn))
         else if amount txn = 0 then state(toStr (source txn) \<mapsto> JNum (amount txn))
         else state(''isValid'' \<mapsto> JBool False))
      else state)"

definition creditStep :: "ledger \<Rightarrow> transaction \<Rightarrow> ledger" where
  "creditStep state txn =
     (if truthy (state ''isValid'')
      then state(recipient txn \<mapsto> jsAdd (state (recipient txn)) (amount txn))
      else state)"

definition replayStep :: "ledger \<Rightarrow> transaction \<Rightarrow> ledger" where
  "replayStep state txn =
     (if \<not> truthy (state ''isValid'') then state
      else creditStep (debitStep state txn) txn)"

definition enoughFunds :: "chain \<Rightarrow> ledger" where
  "enoughFunds c = foldl replayStep initialLedger (concat (map transactions (blocks c)))"

definition validHashes :: "chain \<Rightarrow> js_error + bool" where
  "validHashes c =
     (case mapE (\<lambda>b. leadingZeros (hash b) (difficulty c)) (tl (blocks c)) of
        Inl e \<Rightarrow> Inl e
      | Inr rs \<Rightarrow> Inr (False \<notin> set rs))"

definition oneRewardPerBlock :: "chain \<Rightarrow> bool" where
  "oneRewardPerBlock c =
     (True \<notin> set (map (\<lambda>b. length (filter (\<lambda>txn. source txn = Null) (transactions b)) > 1)
                      (blocks c)))"

definition notTamperedReward :: "chain \<Rightarrow> bool" where
  "notTamperedReward c =
     (length (filter (\<lambda>res. length res \<noteq> 0)
                (map (\<lambda>b. filter (\<lambda>txn. source txn = Null \<and> amount txn \<noteq> reward c) (transactions b))
                     (blocks c))) = 0)"

text \<open>
  The value returned is that of the \<open>&&\<close> chain: \<open>false\<close> when one of the first three
  checks fails, the replay object's \<open>isValid\<close> otherwise.
\<close>

definition isValidMineableChain :: "chain \<Rightarrow> js_error + jsval option" where
  "isValidMineableChain c =
     (case validHashes c of
        Inl e \<Rightarrow> Inl e
      | Inr vh \<Rightarrow>
          if vh \<and> oneRewardPerBlock c \<and> notTamperedReward c
          then Inr (enoughFunds c ''isValid'')
          else Inr (Some (JBool False)))"

section \<open>Reference replay of the ledger\<close>

text \<open>
  The replay as the specification words it (section 4.4), kept apart from the reducer of
  the source so that the two can be compared: a mapping from identities to balances,
  initially empty, and a validity mark.  A present source with a tracked balance of at
  least the amount is debited; otherwise an amount of zero records the balance zero for
  the source; otherwise the result is marked invalid and processing continues.  The amount
  is then credited to the recipient, whose balance is created at the amount if absent.
\<close>

record refLedger =
  balances :: "string \<rightharpoonup> int"
  valid :: bool

definition refDebit :: "refLedger \<Rightarrow> transaction \<Rightarrow> refLedger" where
  "refDebit st txn =
     (case source txn of
        Str s \<Rightarrow>
          (if (case balances st s of None \<Rightarrow> False | Some bal \<Rightarrow> bal \<ge> amount txn)
           then st\<lparr> balances := (balances st)(s \<mapsto> the (balances st s) - amount txn) \<rparr>
           else if amount txn = 0 then st\<lparr> balances := (balances st)(s \<mapsto> 0) \<rparr>
           else st\<lparr> valid := False \<rparr>)
      | _ \<Rightarrow> st)"

definition refCredit :: "refLedger \<Rightarrow> transaction \<Rightarrow> refLedger" where
  "refCredit st txn =
     st\<lparr> balances := (balances st)(recipient txn \<mapsto>
          (case balances st (recipient txn) of None \<Rightarrow> amount txn | Some bal \<Rightarrow> bal + amount txn)) \<rparr>"

definition refReplay :: "chain \<Rightarrow> refLedger" where
  "refReplay c =
     foldl (\<lambda>st txn. refCredit (refDebit st txn) txn) \<lparr> balances = Map.empty, valid = True \<rparr>
       (concat (map transactions (blocks c)))"

section \<open>A small instance of the external collaborators\<close>

text \<open>
  A toy identity provider and a toy hash function, used to run the definitions on concrete
  inputs.  The toy hash accepts nonce 2 at difficulty 2.
\<close>

definition demoSigning :: signing where
  "demoSigning =
     \<lparr> getPublicKey = (\<lambda>k. ''pk:'' @ k),
       sign = (\<lambda>k m. k @ ''|'' @ m),
       verify = (\<lambda>src m s. case src of
                   Str p \<Rightarrow> take 3 p = ''pk:'' \<and> s = drop 3 p @ ''|'' @ m
                 | _ \<Rightarrow> False) \<rparr>"

definition demoHash :: hashfn where
  "demoHash txs prev n = (if n = Some 2 then ''00c4'' else ''9f3a'')"

section \<open>The proof-of-work search\<close>

lemma searched_iff:
  "searched H d b i n \<longleftrightarrow>
     (\<forall>j. i \<le> j \<longrightarrow> j < n \<longrightarrow>
        hashAccepted (Str (H (transactions b) (previousHash b) (Some j))) d = Inr False)"
  by (auto simp: searched_def list_all_iff)


lemma calculateHash_twice:
  "calculateHash H (calculateHash H b i) n = calculateHash H b n"
  by (simp add: calculateHash_def)

lemma calculateHash_fields:
  "transactions (calculateHash H b n) = transactions b"
  "previousHash (calculateHash H b n) = previousHash b"
  "nonce (calculateHash H b n) = Some n"
  "hash (calculateHash H b n) = Str (H (transactions b) (previousHash b) (Some n))"
  by (simp_all add: calculateHash_def)

lemma searched_step:
  "hashAccepted (Str (H (transactions b) (previousHash b) (Some i))) d = Inr False \<Longrightarrow>
   searched H d b (Suc i) n \<Longrightarrow> searched H d b i n"
  unfolding searched_iff
proof (intro allI impI)
  fix j
  assume a: "hashAccepted (Str (H (transactions b) (previousHash b) (Some i))) d = Inr False"
    and r: "\<forall>j. Suc i \<le> j \<longrightarrow> j < n \<longrightarrow>
        hashAccepted (Str (H (transactions b) (previousHash b) (Some j))) d = Inr False"
    and "i \<le> j" "j < n"
  then show "hashAccepted (Str (H (transactions b) (previousHash b) (Some j))) d = Inr False"
    by (cases "j = i") auto
qed

lemma proofOfWork_sound_aux:
  assumes "proofOfWork H d b i = Some r"
  shows "\<forall>b'. r = Inr b' \<longrightarrow>
        hashAccepted (hash b') d = Inr True \<and>
        (b' = b \<or>
         (hashAccepted (hash b) d = Inr False \<and>
          (\<exists>n\<ge>i. b' = calculateHash H b n \<and> searched H d b i n)))"
  using assms
proof (induction rule: proofOfWork.raw_induct[rotated 1, consumes 1])
  case (1 pow H d b i r)
  show ?case
  proof (cases "hashAccepted (hash b) d")
    case (Inl e)
    with 1(2) show ?thesis by auto
  next
    case (Inr ok)
    show ?thesis
    proof (cases ok)
      case True
      with Inr 1(2) show ?thesis by auto
    next
      case False
      with Inr 1(2) have rec: "pow H d (calculateHash H b i) (Suc i) = Some r" by simp
      show ?thesis
      proof (intro allI impI)
        fix b' assume r: "r = Inr b'"
        from 1(1)[OF rec] r have acc: "hashAccepted (hash b') d = Inr True"
          and alt: "b' = calculateHash H b i \<or>
              (hashAccepted (hash (calculateHash H b i)) d = Inr False \<and>
               (\<exists>n\<ge>Suc i. b' = calculateHash H (calculateHash H b i) n \<and>
                  searched H d (calculateHash H b i) (Suc i) n))"
          by auto
        from alt have "\<exists>n\<ge>i. b' = calculateHash H b n \<and> searched H d b i n"
        proof
          assume "b' = calculateHash H b i"
          then show ?thesis by (intro exI[of _ i]) (simp add: searched_iff)
        next
          assume a: "hashAccepted (hash (calculateHash H b i)) d = Inr False \<and>
               (\<exists>n\<ge>Suc i. b' = calculateHash H (calculateHash H b i) n \<and>
                  searched H d (calculateHash H b i) (Suc i) n)"
          then obtain n where n: "Suc i \<le> n" "b' = calculateHash H b n"
            and rest: "searched H d b (Suc i) n"
            by (auto simp: calculateHash_twice calculateHash_fields searched_iff)
          from a have ati: "hashAccepted (Str (H (transactions b) (previousHash b) (Some i))) d = Inr False"
            by (simp add: calculateHash_fields)
          from searched_step[OF ati rest] n show ?thesis by (intro exI[of _ n]) simp
        qed
        with acc Inr False show "hashAccepted (hash b') d = Inr True \<and>
            (b' = b \<or>
             (hashAccepted (hash b) d = Inr False \<and>
              (\<exists>n\<ge>i. b' = calculateHash H b n \<and> searched H d b i n)))"
          by simp
      qed
    qed
  qed
qed

lemma proofOfWork_sound:
  assumes "proofOfWork H d b i = Some (Inr b')"
  shows "hashAccepted (hash b') d = Inr True \<and>
        (b' = b \<or>
         (hashAccepted (hash b) d = Inr False \<and>
          (\<exists>n\<ge>i. b' = calculateHash H b n \<and> searched H d b i n)))"
  using proofOfWork_sound_aux[OF assms] by simp

lemma proofOfWork_complete:
  assumes "hashAccepted (Str (H (transactions b) (previousHash b) (Some n))) d = Inr True"
    and "searched H d b i n"
    and "i \<le> n"
    and "hashAccepted (hash b) d = Inr False"
  shows "proofOfWork H d b i = Some (Inr (calculateHash H b n))"
  using assms
proof (induction "n - i" arbitrary: b i)
  case 0
  then have "i = n" by simp
  have "proofOfWork H d b i = proofOfWork H d (calculateHash H b i) (Suc i)"
    using 0(5) by (subst proofOfWork.simps) simp
  also have "\<dots> = Some (Inr (calculateHash H b n))"
    using 0(2) \<open>i = n\<close> by (subst proofOfWork.simps) (simp add: calculateHash_fields)
  finally show ?case .
next
  case (Suc k)
  then have lt: "i < n" by simp
  let ?b1 = "calculateHash H b i"
  have step: "proofOfWork H d b i = proofOfWork H d ?b1 (Suc i)"
    using Suc(6) by (subst proofOfWork.simps) simp
  have "proofOfWork H d ?b1 (Suc i) = Some (Inr (calculateHash H ?b1 n))"
  proof (rule Suc(1))
    show "k = n - Suc i" using Suc(2) by simp
    show "hashAccepted (Str (H (transactions ?b1) (previousHash ?b1) (Some n))) d = Inr True"
      using Suc(3) by (simp add: calculateHash_fields)
    show "searched H d ?b1 (Suc i) n"
      using Suc(4) by (simp add: calculateHash_fields searched_iff)
    show "Suc i \<le> n" using lt by simp
    show "hashAccepted (hash ?b1) d = Inr False"
      using Suc(4) lt by (simp add: calculateHash_fields searched_iff)
  qed
  with step show ?case by (simp add: calculateHash_twice)
qed

section \<open>Mining\<close>

lemma candidateBlock_fields:
  "transactions (candidateBlock sg k c) = pendingTransactions c @ [MineableTransaction sg k None (reward c)]"
  "previousHash (candidateBlock sg k c) = hash (last (blocks c))"
  "nonce (candidateBlock sg k c) = None"
  "hash (candidateBlock sg k c) = Undefined"
  by (simp_all add: candidateBlock_def MineableBlock_def)

lemma mineSetup_result:
  "mineSetup sg k c = Inr (c2, nb) \<Longrightarrow>
     blocks c \<noteq> [] \<and> c2 = c\<lparr> pendingTransactions := [] \<rparr> \<and> nb = candidateBlock sg k c"
  by (auto simp: mineSetup_def getHeadBlock_def candidateBlock_def Let_def split: if_splits)

lemma mineSetup_ok:
  "blocks c \<noteq> [] \<Longrightarrow>
     mineSetup sg k c = Inr (c\<lparr> pendingTransactions := [] \<rparr>, candidateBlock sg k c)"
  by (simp add: mineSetup_def getHeadBlock_def candidateBlock_def Let_def)

lemma mine_result:
  assumes "mine sg H k c = Some (Inr c')"
  shows "blocks c \<noteq> [] \<and>
     (\<exists>n. c' = c\<lparr> pendingTransactions := [],
                   blocks := blocks c @ [calculateHash H (candidateBlock sg k c) n] \<rparr> \<and>
          hashAccepted (hash (calculateHash H (candidateBlock sg k c) n)) (difficulty c) = Inr True \<and>
          searched H (difficulty c) (candidateBlock sg k c) 0 n)"
proof -
  let ?nb = "candidateBlock sg k c"
  from assms obtain c2 nb where st: "mineSetup sg k c = Inr (c2, nb)"
    by (auto simp: mine_def split: sum.splits)
  from mineSetup_result[OF st] have ne: "blocks c \<noteq> []"
    and c2: "c2 = c\<lparr> pendingTransactions := [] \<rparr>" and nb: "nb = ?nb" by auto
  from assms st obtain b where pow: "proofOfWork H (difficulty c2) nb 0 = Some (Inr b)"
    and c': "c' = c2\<lparr> blocks := blocks c2 @ [b] \<rparr>"
    by (auto simp: mine_def split: sum.splits option.splits)
  have undef: "hashAccepted (hash ?nb) (difficulty c) \<noteq> Inr True"
    by (simp add: candidateBlock_fields hashAccepted_def)
  from proofOfWork_sound[OF pow] have
    acc: "hashAccepted (hash b) (difficulty c2) = Inr True" and
    alt: "b = nb \<or> (hashAccepted (hash nb) (difficulty c2) = Inr False \<and>
          (\<exists>n\<ge>0. b = calculateHash H nb n \<and> searched H (difficulty c2) nb 0 n))"
    by auto
  from acc undef nb c2 have "b \<noteq> nb" by auto
  with alt obtain n where bn: "b = calculateHash H nb n"
    and least: "searched H (difficulty c2) nb 0 n"
    by auto
  from acc bn nb c2 have acc': "hashAccepted (hash (calculateHash H ?nb n)) (difficulty c) = Inr True"
    by simp
  from least nb c2 have least': "searched H (difficulty c) ?nb 0 n"
    by simp
  have "c' = c\<lparr> pendingTransactions := [], blocks := blocks c @ [calculateHash H ?nb n] \<rparr>"
    using c' c2 bn nb by simp
  with ne acc' least' show ?thesis by blast
qed

lemma mine_found:
  assumes "blocks c \<noteq> []"
    and "hashAccepted (hash (calculateHash H (candidateBlock sg k c) n)) (difficulty c) = Inr True"
    and "searched H (difficulty c) (candidateBlock sg k c) 0 n"
  shows "mine sg H k c =
     Some (Inr (c\<lparr> pendingTransactions := [],
                   blocks := blocks c @ [calculateHash H (candidateBlock sg k c) n] \<rparr>))"
proof -
  let ?nb = "candidateBlock sg k c"
  have "proofOfWork H (difficulty c) ?nb 0 = Some (Inr (calculateHash H ?nb n))"
    by (rule proofOfWork_complete)
       (use assms in \<open>simp_all add: candidateBlock_fields calculateHash_fields hashAccepted_def\<close>)
  with mineSetup_ok[OF assms(1)] show ?thesis by (simp add: mine_def)
qed

lemma hashAccepted_iff:
  "hashAccepted h d = Inr True \<longleftrightarrow>
     (\<exists>s. h = Str s \<and> s \<noteq> [] \<and> 0 \<le> d \<and> replicate (nat d) CHR ''0'' = take (nat d) s)"
  by (cases h) (auto simp: hashAccepted_def leadingZeros_def)

lemma mine_error_frame:
  assumes "mine sg H k c = Some (Inl (e, c'))"
  shows "difficulty c' = difficulty c \<and> reward c' = reward c \<and> blocks c' = blocks c"
proof (cases "mineSetup sg k c")
  case (Inl ec)
  with assms show ?thesis
    by (auto simp: mine_def mineSetup_def getHeadBlock_def Let_def split: if_splits)
next
  case (Inr p)
  obtain c2 nb where p: "p = (c2, nb)" by (cases p)
  from mineSetup_result[OF Inr[unfolded p]] have "c2 = c\<lparr> pendingTransactions := [] \<rparr>" by simp
  with assms Inr p show ?thesis
    by (auto simp: mine_def split: option.splits sum.splits)
qed

lemma demo_mine:
  assumes "blocks c \<noteq> []" and "difficulty c = 2"
  shows "mine demoSigning demoHash k c =
     Some (Inr (c\<lparr> pendingTransactions := [],
                   blocks := blocks c @ [calculateHash demoHash (candidateBlock demoSigning k c) 2] \<rparr>))"
proof (rule mine_found[OF assms(1)])
  show "hashAccepted (hash (calculateHash demoHash (candidateBlock demoSigning k c) 2)) (difficulty c) = Inr True"
    by (simp add: assms(2) calculateHash_fields demoHash_def hashAccepted_def leadingZeros_def
        eval_nat_numeral)
  show "searched demoHash (difficulty c) (candidateBlock demoSigning k c) 0 2"
    by (auto simp: assms(2) searched_iff demoHash_def hashAccepted_def leadingZeros_def
        eval_nat_numeral)
qed

lemma mine_search_error:
  assumes "mine sg H k c = Some (Inl (e, c'))" and "blocks c \<noteq> []"
  shows "proofOfWork H (difficulty c) (candidateBlock sg k c) 0 = Some (Inl e) \<and>
         c' = c\<lparr> pendingTransactions := [] \<rparr>"
  using assms(1) mineSetup_ok[OF assms(2), of sg k]
  by (auto simp: mine_def split: option.splits sum.splits)

lemma mine_search_error_conv:
  assumes "proofOfWork H (difficulty c) (candidateBlock sg k c) 0 = Some (Inl e)" and "blocks c \<noteq> []"
  shows "mine sg H k c = Some (Inl (e, c\<lparr> pendingTransactions := [] \<rparr>))"
  using assms(1) mineSetup_ok[OF assms(2), of sg k]
  by (simp add: mine_def)

lemma demo_mine_negative_difficulty:
  assumes "blocks c \<noteq> []" and "difficulty c = - 1"
  shows "mine demoSigning demoHash k c = Some (Inl (RangeError, c\<lparr> pendingTransactions := [] \<rparr>))"
proof (rule mine_search_error_conv[OF _ assms(1)])
  let ?nb = "candidateBlock demoSigning k c"
  have "proofOfWork demoHash (- 1) ?nb 0 = proofOfWork demoHash (- 1) (calculateHash demoHash ?nb 0) (Suc 0)"
    by (subst proofOfWork.simps) (simp add: candidateBlock_fields hashAccepted_def)
  also have "\<dots> = Some (Inl RangeError)"
    by (subst proofOfWork.simps)
       (simp add: calculateHash_fields hashAccepted_def leadingZeros_def demoHash_def)
  finally show "proofOfWork demoHash (difficulty c) ?nb 0 = Some (Inl RangeError)"
    by (simp add: assms(2))
qed

section \<open>Claims about mining\<close>

text \<open>
  C3.  Whenever \<open>mine\<close> returns on a chain of difficulty \<open>d\<close>, it has appended exactly one
  block; the hash of that block is a string that starts with at least \<open>d\<close> characters \<open>0\<close>;
  it is the digest at the nonce stored in the block, and every smaller nonce, from 0 on,
  gives a digest that the loop condition does not accept.
\<close>

theorem C3_mined_hash_meets_difficulty:
  assumes "mine sg H privateKey c = Some (Inr c')"
  shows "\<exists>b h n. blocks c' = blocks c @ [b] \<and> hash b = Str h \<and> nonce b = Some n \<and>
           h = H (transactions b) (previousHash b) (Some n) \<and>
           0 \<le> difficulty c \<and> nat (difficulty c) \<le> length h \<and>
           take (nat (difficulty c)) h = replicate (nat (difficulty c)) CHR ''0'' \<and>
           (\<forall>j<n. hashAccepted (Str (H (transactions b) (previousHash b) (Some j))) (difficulty c)
                     = Inr False)"
proof -
  let ?nb = "candidateBlock sg privateKey c"
  from mine_result[OF assms] obtain n where
    c': "c' = c\<lparr> pendingTransactions := [], blocks := blocks c @ [calculateHash H ?nb n] \<rparr>"
    and acc: "hashAccepted (hash (calculateHash H ?nb n)) (difficulty c) = Inr True"
    and least: "searched H (difficulty c) ?nb 0 n"
    by blast
  let ?b = "calculateHash H ?nb n"
  let ?h = "H (transactions ?b) (previousHash ?b) (Some n)"
  have hb: "hash ?b = Str ?h" by (simp add: calculateHash_fields)
  from acc hb have d0: "0 \<le> difficulty c"
    and pre: "replicate (nat (difficulty c)) CHR ''0'' = take (nat (difficulty c)) ?h"
    by (auto simp: hashAccepted_iff)
  from pre have "length (replicate (nat (difficulty c)) CHR ''0'') = length (take (nat (difficulty c)) ?h)"
    by simp
  then have len: "nat (difficulty c) \<le> length ?h" by simp
  from least have lst: "\<forall>j<n. hashAccepted (Str (H (transactions ?b) (previousHash ?b) (Some j))) (difficulty c)
                     = Inr False"
    by (simp add: searched_iff calculateHash_fields)
  have "blocks c' = blocks c @ [?b]" using c' by simp
  moreover have "nonce ?b = Some n" by (simp add: calculateHash_fields)
  ultimately show ?thesis using hb d0 len pre[symmetric] lst by blast
qed

theorem C3_mined_hash_meets_difficulty_witness:
  "mine demoSigning demoHash ''a'' (MineableChain demoHash) \<noteq> None \<and>
   (\<exists>c' b h n. mine demoSigning demoHash ''a'' (MineableChain demoHash) = Some (Inr c') \<and>
      blocks c' = blocks (MineableChain demoHash) @ [b] \<and> hash b = Str h \<and> nonce b = Some n \<and>
      take 2 h = ''00'')"
proof -
  have ne: "blocks (MineableChain demoHash) \<noteq> []" and d: "difficulty (MineableChain demoHash) = 2"
    by (simp_all add: MineableChain_def)
  note m = demo_mine[OF ne d, of "''a''"]
  from C3_mined_hash_meets_difficulty[OF m] d show ?thesis
    using m by (auto simp: eval_nat_numeral)
qed

text \<open>
  C7.  \<open>mine\<close> first pushes the reward transaction behind the queued ones, builds the new
  block from that sequence and the head block's hash, and empties the queue: this is the
  chain on which the search starts.  When \<open>mine\<close> returns, the queue is empty, the blocks
  are the former blocks followed by the one new block, which carries that transaction
  sequence and previousHash, and difficulty and reward are unchanged.  That the queue is
  emptied before the search shows when the search throws: the chain that \<open>mine\<close> leaves
  behind then has the empty queue already, and its blocks, difficulty and reward are
  untouched.
\<close>

theorem C7_mine_frame:
  "(\<forall>c'. mine sg H privateKey c = Some (Inr c') \<longrightarrow>
      (\<exists>c2 newBlock b.
           mineSetup sg privateKey c = Inr (c2, newBlock) \<and>
           pendingTransactions c2 = [] \<and> blocks c2 = blocks c \<and>
           transactions newBlock =
             pendingTransactions c @ [MineableTransaction sg privateKey None (reward c)] \<and>
           previousHash newBlock = hash (last (blocks c)) \<and>
           proofOfWork H (difficulty c2) newBlock 0 = Some (Inr b) \<and>
           transactions b = transactions newBlock \<and> previousHash b = previousHash newBlock \<and>
           pendingTransactions c' = [] \<and> blocks c' = blocks c @ [b] \<and>
           difficulty c' = difficulty c \<and> reward c' = reward c)) \<and>
   (\<forall>e c'. mine sg H privateKey c = Some (Inl (e, c')) \<longrightarrow> blocks c \<noteq> [] \<longrightarrow>
      proofOfWork H (difficulty c) (candidateBlock sg privateKey c) 0 = Some (Inl e) \<and>
      pendingTransactions c' = [] \<and> blocks c' = blocks c \<and>
      difficulty c' = difficulty c \<and> reward c' = reward c)"
proof (intro conjI allI impI)
  fix c' assume m: "mine sg H privateKey c = Some (Inr c')"
  let ?nb = "candidateBlock sg privateKey c"
  let ?c2 = "c\<lparr> pendingTransactions := [] \<rparr>"
  from mine_result[OF m] obtain n where ne: "blocks c \<noteq> []" and
    c': "c' = c\<lparr> pendingTransactions := [], blocks := blocks c @ [calculateHash H ?nb n] \<rparr>"
    and acc: "hashAccepted (hash (calculateHash H ?nb n)) (difficulty c) = Inr True"
    and least: "searched H (difficulty c) ?nb 0 n"
    by blast
  have st: "mineSetup sg privateKey c = Inr (?c2, ?nb)" by (rule mineSetup_ok[OF ne])
  have pow: "proofOfWork H (difficulty ?c2) ?nb 0 = Some (Inr (calculateHash H ?nb n))"
    using acc least
    by (intro proofOfWork_complete) (simp_all add: calculateHash_fields candidateBlock_fields hashAccepted_def)
  show "\<exists>c2 newBlock b.
           mineSetup sg privateKey c = Inr (c2, newBlock) \<and>
           pendingTransactions c2 = [] \<and> blocks c2 = blocks c \<and>
           transactions newBlock =
             pendingTransactions c @ [MineableTransaction sg privateKey None (reward c)] \<and>
           previousHash newBlock = hash (last (blocks c)) \<and>
           proofOfWork H (difficulty c2) newBlock 0 = Some (Inr b) \<and>
           transactions b = transactions newBlock \<and> previousHash b = previousHash newBlock \<and>
           pendingTransactions c' = [] \<and> blocks c' = blocks c @ [b] \<and>
           difficulty c' = difficulty c \<and> reward c' = reward c"
    apply (rule exI[of _ ?c2], rule exI[of _ ?nb], rule exI[of _ "calculateHash H ?nb n"])
    using st pow c' by (simp add: calculateHash_fields candidateBlock_fields)
next
  fix e c' assume m: "mine sg H privateKey c = Some (Inl (e, c'))" and ne: "blocks c \<noteq> []"
  note r = mine_search_error[OF m ne]
  from r show "proofOfWork H (difficulty c) (candidateBlock sg privateKey c) 0 = Some (Inl e)" by simp
  from r show "pendingTransactions c' = []" by simp
  from r show "blocks c' = blocks c" by simp
  from r show "difficulty c' = difficulty c" by simp
  from r show "reward c' = reward c" by simp
qed

theorem C7_mine_frame_witness:
  "(\<exists>c' b. mine demoSigning demoHash ''a''
             (addTransaction (MineableTransaction demoSigning ''b'' (Some ''pk:a'') 0) (MineableChain demoHash))
           = Some (Inr c') \<and>
     pendingTransactions c' = [] \<and>
     blocks c' = [genesisBlock demoHash, b] \<and>
     transactions b = [MineableTransaction demoSigning ''b'' (Some ''pk:a'') 0,
                       MineableTransaction demoSigning ''a'' None 5] \<and>
     previousHash b = Str ''9f3a'' \<and> difficulty c' = 2 \<and> reward c' = 5) \<and>
   (\<exists>e c'. mine demoSigning demoHash ''a''
             ((addTransaction (MineableTransaction demoSigning ''b'' (Some ''pk:a'') 0) (MineableChain demoHash))
                \<lparr> difficulty := - 1 \<rparr>)
           = Some (Inl (e, c')) \<and>
     blocks ((addTransaction (MineableTransaction demoSigning ''b'' (Some ''pk:a'') 0) (MineableChain demoHash))
                \<lparr> difficulty := - 1 \<rparr>) \<noteq> [] \<and>
     e = RangeError \<and> pendingTransactions c' = [] \<and> blocks c' = [genesisBlock demoHash])"
proof -
  let ?c = "addTransaction (MineableTransaction demoSigning ''b'' (Some ''pk:a'') 0) (MineableChain demoHash)"
  let ?d = "?c\<lparr> difficulty := - 1 \<rparr>"
  have ne: "blocks ?c \<noteq> []" and d: "difficulty ?c = 2"
    by (simp_all add: MineableChain_def addTransaction_def)
  have ne2: "blocks ?d \<noteq> []" and d2: "difficulty ?d = - 1"
    by (simp_all add: MineableChain_def addTransaction_def)
  note m = demo_mine[OF ne d, of "''a''"]
  note m2 = demo_mine_negative_difficulty[OF ne2 d2, of "''a''"]
  from C7_mine_frame[of demoSigning demoHash "''a''" ?c] m
  have 1: "\<exists>c' b. mine demoSigning demoHash ''a'' ?c = Some (Inr c') \<and>
     pendingTransactions c' = [] \<and>
     blocks c' = [genesisBlock demoHash, b] \<and>
     transactions b = [MineableTransaction demoSigning ''b'' (Some ''pk:a'') 0,
                       MineableTransaction demoSigning ''a'' None 5] \<and>
     previousHash b = Str ''9f3a'' \<and> difficulty c' = 2 \<and> reward c' = 5"
    by (auto simp: MineableChain_def addTransaction_def genesisBlock_def calculateHash_def demoHash_def)
  from C7_mine_frame[of demoSigning demoHash "''a''" ?d] m2 ne2
  have 2: "\<exists>e c'. mine demoSigning demoHash ''a'' ?d = Some (Inl (e, c')) \<and> blocks ?d \<noteq> [] \<and>
     e = RangeError \<and> pendingTransactions c' = [] \<and> blocks c' = [genesisBlock demoHash]"
    by (auto simp: MineableChain_def addTransaction_def)
  from 1 2 show ?thesis by blast
qed

text \<open>
  C10.  The constructor of the mineable chain takes no policy parameter: it sets difficulty
  to 2, reward to 5 and the queue to empty.  \<open>addTransaction\<close> and \<open>mine\<close> (whether it
  returns or throws) leave difficulty and reward as they were.  The validators return a
  verdict only and write to no field of the chain.
\<close>

theorem C10_policy_fixed:
  "difficulty (MineableChain H0) = 2 \<and> reward (MineableChain H0) = 5 \<and>
   pendingTransactions (MineableChain H0) = [] \<and>
   difficulty (addTransaction t c) = difficulty c \<and> reward (addTransaction t c) = reward c \<and>
   (\<forall>c'. mine sg H privateKey c = Some (Inr c') \<longrightarrow>
          difficulty c' = difficulty c \<and> reward c' = reward c) \<and>
   (\<forall>e c'. mine sg H privateKey c = Some (Inl (e, c')) \<longrightarrow>
          difficulty c' = difficulty c \<and> reward c' = reward c)"
proof -
  have "difficulty c' = difficulty c \<and> reward c' = reward c"
    if "mine sg H privateKey c = Some (Inr c')" for c'
    using mine_result[OF that] by auto
  moreover have "difficulty c' = difficulty c \<and> reward c' = reward c"
    if "mine sg H privateKey c = Some (Inl (e, c'))" for e c'
    using mine_error_frame[OF that] by simp
  ultimately show ?thesis
    by (simp add: MineableChain_def addTransaction_def)
qed

theorem C10_policy_fixed_witness:
  "\<exists>c'. mine demoSigning demoHash ''a'' (MineableChain demoHash) = Some (Inr c') \<and>
        difficulty c' = 2 \<and> reward c' = 5 \<and>
   (\<exists>e c''. mine demoSigning demoHash ''a'' (MineableChain demoHash\<lparr> blocks := [] \<rparr>) = Some (Inl (e, c'')) \<and>
        difficulty c'' = 2 \<and> reward c'' = 5)"
proof -
  have ne: "blocks (MineableChain demoHash) \<noteq> []" and d: "difficulty (MineableChain demoHash) = 2"
    by (simp_all add: MineableChain_def)
  note m = demo_mine[OF ne d, of "''a''"]
  have m2: "mine demoSigning demoHash ''a'' (MineableChain demoHash\<lparr> blocks := [] \<rparr>) =
     Some (Inl (TypeError, (MineableChain demoHash\<lparr> blocks := [] \<rparr>)
        \<lparr> pendingTransactions := [MineableTransaction demoSigning ''a'' None 5] \<rparr>))"
    by (simp add: mine_def mineSetup_def getHeadBlock_def MineableChain_def Let_def)
  from C10_policy_fixed[of demoHash _ "MineableChain demoHash" demoSigning demoHash "''a''"]
    C10_policy_fixed[of demoHash _ "MineableChain demoHash\<lparr> blocks := [] \<rparr>" demoSigning demoHash "''a''"]
  show ?thesis using m m2 by (auto simp: MineableChain_def)
qed

section \<open>Transactions: construction and signature\<close>

lemma MineableTransaction_reward:
  "source (MineableTransaction sg k None a) = Null"
  "recipient (MineableTransaction sg k None a) = getPublicKey sg k"
  "amount (MineableTransaction sg k None a) = a"
  "signature (MineableTransaction sg k None a) = sign sg k (''nullnull'' @ numToString a)"
  by (simp_all add: MineableTransaction_def argTruthy_def argStr_def)

lemma MineableTransaction_transfer:
  assumes "r \<noteq> []"
  shows "source (MineableTransaction sg k (Some r) a) = Str (getPublicKey sg k)"
    "recipient (MineableTransaction sg k (Some r) a) = r"
    "amount (MineableTransaction sg k (Some r) a) = a"
    "signature (MineableTransaction sg k (Some r) a) = sign sg k (getPublicKey sg k @ r @ numToString a)"
  using assms by (simp_all add: MineableTransaction_def argTruthy_def argStr_def)

text \<open>
  C4.  For a reward transaction (recipient omitted) the constructor signs the message built
  from the stored source and the recipient \<^emph>\<open>argument\<close>, which is \<open>null\<close>: the signed message is
  \<open>nullnull\<close> followed by the amount, whereas the message made of the stored source, the stored
  recipient and the amount is \<open>null\<close>, the signer's public key, the amount.  With the toy
  provider the two signatures are different strings.
\<close>

theorem C4_reward_signed_message:
  "signature (MineableTransaction sg k None a) = sign sg k (''null'' @ ''null'' @ numToString a) \<and>
   canonicalMessage (source (MineableTransaction sg k None a))
       (recipient (MineableTransaction sg k None a)) (amount (MineableTransaction sg k None a))
     = ''null'' @ getPublicKey sg k @ numToString a \<and>
   signature (MineableTransaction demoSigning ''a'' None 5) = ''a|nullnull5'' \<and>
   sign demoSigning ''a''
     (canonicalMessage (source (MineableTransaction demoSigning ''a'' None 5))
        (recipient (MineableTransaction demoSigning ''a'' None 5))
        (amount (MineableTransaction demoSigning ''a'' None 5))) = ''a|nullpk:a5''"
  by (simp add: MineableTransaction_reward canonicalMessage_def demoSigning_def numToString_def)

text \<open>
  C9 as stated fails for the empty string as recipient, which is provided and not \<open>null\<close>, but
  falsy: the constructor then builds a reward transaction, with the source \<open>null\<close> and the
  signer's key as the recipient.
\<close>

theorem C9_counterexample:
  "source (MineableTransaction demoSigning ''a'' (Some []) 1) \<noteq> Str (getPublicKey demoSigning ''a'') \<and>
   recipient (MineableTransaction demoSigning ''a'' (Some []) 1) \<noteq> []"
  by (simp add: MineableTransaction_def argTruthy_def demoSigning_def)

text \<open>
  C9, amended.  For every private key, every non-empty recipient and every amount that is not
  negative, the constructed transaction is a transfer from the key's public identity to the
  recipient, and \<open>isValidTransaction\<close> accepts it, provided that the identity provider verifies
  what it signs.
\<close>

theorem C9_transfer_roundtrip:
  assumes "\<And>m. verify sg (Str (getPublicKey sg k)) m (sign sg k m)"
    and "r \<noteq> []" and "0 \<le> a"
  shows "source (MineableTransaction sg k (Some r) a) = Str (getPublicKey sg k) \<and>
         recipient (MineableTransaction sg k (Some r) a) = r \<and>
         amount (MineableTransaction sg k (Some r) a) = a \<and>
         isValidTransaction sg (MineableTransaction sg k (Some r) a)"
  using assms(1,3) by (simp add: isValidTransaction_def MineableTransaction_transfer[OF assms(2)])

theorem C9_transfer_roundtrip_witness:
  "(\<forall>m. verify demoSigning (Str (getPublicKey demoSigning ''a'')) m (sign demoSigning ''a'' m)) \<and>
   ''pk:b'' \<noteq> [] \<and> (0::int) \<le> 3 \<and>
   source (MineableTransaction demoSigning ''a'' (Some ''pk:b'') 3) = Str ''pk:a'' \<and>
   isValidTransaction demoSigning (MineableTransaction demoSigning ''a'' (Some ''pk:b'') 3)"
proof -
  have v: "\<And>m. verify demoSigning (Str (getPublicKey demoSigning ''a'')) m (sign demoSigning ''a'' m)"
    by (simp add: demoSigning_def)
  have r: "''pk:b'' \<noteq> []" by simp
  have a: "(0::int) \<le> 3" by simp
  from C9_transfer_roundtrip[of demoSigning "''a''", OF v r a] v show ?thesis
    by (simp add: demoSigning_def)
qed

section \<open>The structural validator\<close>





text \<open>
  The null check of \<open>isValidChain\<close> covers the genesis block as well: a chain whose first
  block has the hash \<open>null\<close> is always rejected.  This agrees with the characterisation above,
  because such a block fails \<open>isValidBlock\<close>: the recomputed digest is a string.
\<close>

lemma isValidChain_null_genesis_hash:
  assumes "blocks c \<noteq> []" and "hash (hd (blocks c)) = Null"
  shows "isValidChain sg H c = Inr False"
proof -
  from assms obtain g rest where bs: "blocks c = g # rest" by (cases "blocks c") auto
  with assms(2) show ?thesis by (simp add: isValidChain_def Let_def)
qed

section \<open>The ledger validator\<close>

lemma replayStep_invalid: "\<not> truthy (s ''isValid'') \<Longrightarrow> replayStep s t = s"
  by (simp add: replayStep_def)

lemma replay_invalid: "\<not> truthy (s ''isValid'') \<Longrightarrow> foldl replayStep s ts = s"
  by (induction ts) (simp_all add: replayStep_invalid)

lemma mapE_error: "x \<in> set xs \<Longrightarrow> isl (f x) \<Longrightarrow> isl (mapE f xs)"
  by (induction xs) (auto split: sum.splits)

lemma mapE_ok: "(\<And>x. x \<in> set xs \<Longrightarrow> f x = Inr (g x)) \<Longrightarrow> mapE f xs = Inr (map g xs)"
  by (induction xs) (auto split: sum.splits)

text \<open>
  C2.  When the replay is valid and the recipient has no entry in the replay object, the
  credit \<open>state[recipient] += amount\<close> adds the amount to \<open>undefined\<close>: the entry is created as
  \<open>NaN\<close>, not as the amount.
\<close>

theorem C2_credit_of_absent_balance:
  assumes "truthy (state ''isValid'')" and "state (recipient txn) = None"
  shows "creditStep state txn (recipient txn) = Some JNaN"
  using assms by (simp add: creditStep_def jsAdd_def)

theorem C2_credit_of_absent_balance_witness:
  "truthy (initialLedger ''isValid'') \<and> initialLedger ''pk:a'' = None \<and>
   recipient (MineableTransaction demoSigning ''a'' None 5) = ''pk:a'' \<and>
   creditStep initialLedger (MineableTransaction demoSigning ''a'' None 5) ''pk:a'' = Some JNaN \<and>
   replayStep initialLedger (MineableTransaction demoSigning ''a'' None 5) ''pk:a'' = Some JNaN"
proof -
  let ?t = "MineableTransaction demoSigning ''a'' None 5"
  have v: "truthy (initialLedger ''isValid'')" by (simp add: initialLedger_def)
  have r: "recipient ?t = ''pk:a''" by (simp add: MineableTransaction_reward demoSigning_def)
  have n: "initialLedger (recipient ?t) = None" by (simp add: r initialLedger_def)
  have d: "debitStep initialLedger ?t = initialLedger"
    by (simp add: debitStep_def MineableTransaction_reward)
  from C2_credit_of_absent_balance[of initialLedger ?t, OF v n] v n r d show ?thesis
    by (simp add: replayStep_def)
qed

lemma scenario_chain:
  assumes m1: "mine sg H kA (MineableChain H) = Some (Inr c1)"
    and m2: "mine sg H kB (addTransaction tx c1) = Some (Inr c2)"
  shows "concat (map transactions (blocks c2)) =
           [MineableTransaction sg kA None 5, tx, MineableTransaction sg kB None 5] \<and>
         validHashes c2 = Inr True \<and> length (blocks c2) = 3"
proof -
  let ?c0 = "MineableChain H"
  from mine_result[OF m1] obtain n1 where
    c1: "c1 = ?c0\<lparr> pendingTransactions := [],
                   blocks := blocks ?c0 @ [calculateHash H (candidateBlock sg kA ?c0) n1] \<rparr>"
    and acc1: "hashAccepted (hash (calculateHash H (candidateBlock sg kA ?c0) n1)) (difficulty ?c0) = Inr True"
    by blast
  let ?b1 = "calculateHash H (candidateBlock sg kA ?c0) n1"
  let ?c1' = "addTransaction tx c1"
  from mine_result[OF m2] obtain n2 where
    c2: "c2 = ?c1'\<lparr> pendingTransactions := [],
                   blocks := blocks ?c1' @ [calculateHash H (candidateBlock sg kB ?c1') n2] \<rparr>"
    and acc2: "hashAccepted (hash (calculateHash H (candidateBlock sg kB ?c1') n2)) (difficulty ?c1') = Inr True"
    by blast
  let ?b2 = "calculateHash H (candidateBlock sg kB ?c1') n2"
  have blocks2: "blocks c2 = [genesisBlock H, ?b1, ?b2]"
    using c1 c2 by (simp add: MineableChain_def addTransaction_def)
  have d2: "difficulty c2 = 2"
    using c1 c2 by (simp add: MineableChain_def addTransaction_def)
  have t1: "transactions ?b1 = [MineableTransaction sg kA None 5]"
    by (simp add: calculateHash_fields candidateBlock_fields MineableChain_def)
  have t2: "transactions ?b2 = [tx, MineableTransaction sg kB None 5]"
    using c1 by (simp add: calculateHash_fields candidateBlock_fields MineableChain_def addTransaction_def)
  have t0: "transactions (genesisBlock H) = []"
    by (simp add: genesisBlock_def calculateHash_def)
  have l1: "leadingZeros (hash ?b1) 2 = Inr True"
    using acc1 by (auto simp: hashAccepted_def MineableChain_def split: if_splits)
  have l2: "leadingZeros (hash ?b2) 2 = Inr True"
    using acc2 c1 by (auto simp: hashAccepted_def MineableChain_def addTransaction_def split: if_splits)
  have "validHashes c2 = Inr True"
    by (simp add: validHashes_def blocks2 d2 l1 l2)
  then show ?thesis by (simp add: blocks2 t0 t1 t2)
qed

lemma scenario_checks:
  assumes m1: "mine sg H kA (MineableChain H) = Some (Inr c1)"
    and m2: "mine sg H kB (addTransaction tx c1) = Some (Inr c2)"
  shows "map transactions (blocks c2) =
           [[], [MineableTransaction sg kA None 5], [tx, MineableTransaction sg kB None 5]] \<and>
         reward c2 = 5"
proof -
  let ?c0 = "MineableChain H"
  from mine_result[OF m1] obtain n1 where
    c1: "c1 = ?c0\<lparr> pendingTransactions := [],
                   blocks := blocks ?c0 @ [calculateHash H (candidateBlock sg kA ?c0) n1] \<rparr>"
    by blast
  let ?c1' = "addTransaction tx c1"
  from mine_result[OF m2] obtain n2 where
    c2: "c2 = ?c1'\<lparr> pendingTransactions := [],
                   blocks := blocks ?c1' @ [calculateHash H (candidateBlock sg kB ?c1') n2] \<rparr>"
    by blast
  show ?thesis
    using c1 c2
    by (simp add: MineableChain_def addTransaction_def calculateHash_fields candidateBlock_fields
        genesisBlock_def)
qed

lemma scenario_code_replay:
  assumes m1: "mine sg H kA (MineableChain H) = Some (Inr c1)"
    and m2: "mine sg H kB (addTransaction (MineableTransaction sg kA (Some B) 3) c1) = Some (Inr c2)"
    and B: "B \<noteq> []"
    and A: "getPublicKey sg kA \<noteq> []" "getPublicKey sg kA \<noteq> ''isValid''"
  shows "enoughFunds c2 = [''isValid'' \<mapsto> JBool False, getPublicKey sg kA \<mapsto> JNaN]"
proof -
  let ?A = "getPublicKey sg kA"
  let ?rA = "MineableTransaction sg kA None 5"
  let ?tx = "MineableTransaction sg kA (Some B) 3"
  let ?rB = "MineableTransaction sg kB None 5"
  from scenario_chain[OF m1 m2]
  have txs: "concat (map transactions (blocks c2)) = [?rA, ?tx, ?rB]"
    by simp
  have s1: "replayStep initialLedger ?rA = initialLedger(?A \<mapsto> JNaN)"
    by (simp add: replayStep_def debitStep_def creditStep_def MineableTransaction_reward
        initialLedger_def jsAdd_def A)
  have s2: "replayStep (initialLedger(?A \<mapsto> JNaN)) ?tx = initialLedger(?A \<mapsto> JNaN, ''isValid'' \<mapsto> JBool False)"
    using A by (simp add: replayStep_def debitStep_def creditStep_def MineableTransaction_transfer[OF B]
        initialLedger_def jsGe_def)
  have s3: "replayStep (initialLedger(?A \<mapsto> JNaN, ''isValid'' \<mapsto> JBool False)) ?rB
        = initialLedger(?A \<mapsto> JNaN, ''isValid'' \<mapsto> JBool False)"
    by (rule replayStep_invalid) simp
  have "enoughFunds c2 = initialLedger(?A \<mapsto> JNaN, ''isValid'' \<mapsto> JBool False)"
    by (simp add: enoughFunds_def txs s1 s2 s3)
  also have "\<dots> = [''isValid'' \<mapsto> JBool False, ?A \<mapsto> JNaN]"
    using A by (auto simp: initialLedger_def)
  finally show ?thesis .
qed

lemma refReplay_invalid_sticky:
  "\<not> valid st \<Longrightarrow> \<not> valid (foldl (\<lambda>st txn. refCredit (refDebit st txn) txn) st txs)"
proof (induction txs arbitrary: st)
  case Nil
  then show ?case by simp
next
  case (Cons t ts)
  have "\<not> valid (refCredit (refDebit st t) t)"
    using Cons.prems by (auto simp: refCredit_def refDebit_def split: jstr.splits)
  from Cons.IH[OF this] show ?case by simp
qed

text \<open>
  On the chain of the scenario the reference replay ends valid, with the balances 2 for A,
  3 for B and 5 for the second miner.
\<close>

lemma scenario_reference_replay:
  assumes m1: "mine sg H kA (MineableChain H) = Some (Inr c1)"
    and m2: "mine sg H kB (addTransaction (MineableTransaction sg kA (Some B) 3) c1) = Some (Inr c2)"
    and B: "B \<noteq> []"
    and dist: "distinct [getPublicKey sg kA, B, getPublicKey sg kB]"
  shows "valid (refReplay c2) \<and>
         balances (refReplay c2) = [getPublicKey sg kA \<mapsto> 2, B \<mapsto> 3, getPublicKey sg kB \<mapsto> 5]"
proof -
  from scenario_chain[OF m1 m2] have txs: "concat (map transactions (blocks c2)) =
      [MineableTransaction sg kA None 5, MineableTransaction sg kA (Some B) 3, MineableTransaction sg kB None 5]"
    by simp
  from dist show ?thesis
    by (auto simp: refReplay_def txs refDebit_def refCredit_def MineableTransaction_reward
        MineableTransaction_transfer[OF B])
qed

text \<open>
  C1.  The scenario: a fresh chain, a block mined for A, a transfer of 3 from A to B queued,
  a block mined for miner B.  Whenever both calls of \<open>mine\<close> return, \<open>isValidMineableChain\<close>
  returns false on the result, and the replay ends with A's balance \<open>NaN\<close> and no entry for
  B or for miner B: the reward created A's balance as \<open>NaN\<close>, so the transfer finds no
  funds.
\<close>

theorem C1_scenario_rejected:
  assumes m1: "mine sg H kA (MineableChain H) = Some (Inr c1)"
    and m2: "mine sg H kB (addTransaction (MineableTransaction sg kA (Some B) 3) c1) = Some (Inr c2)"
    and B: "B \<noteq> []"
    and A: "getPublicKey sg kA \<noteq> []" "getPublicKey sg kA \<noteq> ''isValid''"
  shows "isValidMineableChain c2 = Inr (Some (JBool False)) \<and>
         enoughFunds c2 = [''isValid'' \<mapsto> JBool False, getPublicKey sg kA \<mapsto> JNaN]"
proof -
  from scenario_chain[OF m1 m2] have vh: "validHashes c2 = Inr True" by simp
  note fin = scenario_code_replay[OF m1 m2 B A]
  from fin A have iv: "enoughFunds c2 ''isValid'' = Some (JBool False)" by auto
  from vh iv have "isValidMineableChain c2 = Inr (Some (JBool False))"
    by (simp add: isValidMineableChain_def)
  with fin show ?thesis by simp
qed

theorem C1_scenario_rejected_witness:
  "\<exists>c1 c2. mine demoSigning demoHash ''a'' (MineableChain demoHash) = Some (Inr c1) \<and>
     mine demoSigning demoHash ''m''
       (addTransaction (MineableTransaction demoSigning ''a'' (Some ''pk:b'') 3) c1) = Some (Inr c2) \<and>
     isValidMineableChain c2 = Inr (Some (JBool False)) \<and>
     enoughFunds c2 ''pk:a'' = Some JNaN \<and> enoughFunds c2 ''pk:b'' = None \<and>
     enoughFunds c2 ''pk:m'' = None"
proof -
  let ?c0 = "MineableChain demoHash"
  have ne: "blocks ?c0 \<noteq> []" and d: "difficulty ?c0 = 2"
    by (simp_all add: MineableChain_def)
  note m1 = demo_mine[OF ne d, of "''a''"]
  let ?c1 = "?c0\<lparr> pendingTransactions := [],
                   blocks := blocks ?c0 @ [calculateHash demoHash (candidateBlock demoSigning ''a'' ?c0) 2] \<rparr>"
  let ?c1' = "addTransaction (MineableTransaction demoSigning ''a'' (Some ''pk:b'') 3) ?c1"
  have ne1: "blocks ?c1' \<noteq> []" and d1: "difficulty ?c1' = 2"
    by (simp_all add: MineableChain_def addTransaction_def)
  note m2 = demo_mine[OF ne1 d1, of "''m''"]
  have B: "''pk:b'' \<noteq> []" by simp
  have A: "getPublicKey demoSigning ''a'' \<noteq> []" "getPublicKey demoSigning ''a'' \<noteq> ''isValid''"
    by (simp_all add: demoSigning_def)
  from C1_scenario_rejected[OF m1 m2 B A] m1 m2 show ?thesis
    by (simp add: demoSigning_def)
qed

text \<open>
  C5.  \<open>isValidMineableChain\<close> throws on every chain that has a block after the first whose
  hash is missing or \<open>null\<close>: \<open>leadingZeros\<close> calls \<open>slice\<close> on it.
\<close>

theorem C5_absent_hash_throws:
  assumes "b \<in> set (tl (blocks c))" and "hash b = Undefined \<or> hash b = Null"
  shows "\<exists>e. isValidMineableChain c = Inl e"
proof -
  from assms(2) have "isl (leadingZeros (hash b) (difficulty c))"
    by (auto simp: leadingZeros_def)
  from mapE_error[OF assms(1), of "\<lambda>b. leadingZeros (hash b) (difficulty c)", OF this]
  obtain e where "mapE (\<lambda>b. leadingZeros (hash b) (difficulty c)) (tl (blocks c)) = Inl e"
    by (auto simp: isl_def)
  then show ?thesis by (simp add: isValidMineableChain_def validHashes_def)
qed

theorem C5_absent_hash_throws_witness:
  "isValidMineableChain
     ((MineableChain demoHash)\<lparr> blocks := [genesisBlock demoHash, MineableBlock [] (Str ''9f3a'')] \<rparr>)
   = Inl TypeError"
proof -
  let ?c = "(MineableChain demoHash)\<lparr> blocks := [genesisBlock demoHash, MineableBlock [] (Str ''9f3a'')] \<rparr>"
  have 1: "MineableBlock [] (Str ''9f3a'') \<in> set (tl (blocks ?c))" by simp
  have 2: "hash (MineableBlock [] (Str ''9f3a'')) = Undefined \<or> hash (MineableBlock [] (Str ''9f3a'')) = Null"
    by (simp add: MineableBlock_def)
  from C5_absent_hash_throws[OF 1 2] show ?thesis
    by (auto simp: isValidMineableChain_def validHashes_def leadingZeros_def MineableBlock_def
        MineableChain_def split: sum.splits)
qed

text \<open>
  The reducer stops applying effects at the first transaction that marks the replay
  invalid: neither that transaction nor any later one is debited or credited.  This cannot
  change the outcome of the replay, since an invalid replay stays invalid in the reference
  replay as well.
\<close>

lemma replay_stops_at_first_invalid:
  assumes "truthy (state ''isValid'')"
    and "truthyStr (source txn)"
    and "\<not> (truthy (state (toStr (source txn))) \<and> jsGe (state (toStr (source txn))) (amount txn))"
    and "amount txn \<noteq> 0"
  shows "foldl replayStep state (txn # rest) = state(''isValid'' \<mapsto> JBool False)"
proof -
  from assms(3) have neg:
    "(truthy (state (toStr (source txn))) \<and> jsGe (state (toStr (source txn))) (amount txn)) = False"
    by simp
  have "debitStep state txn = state(''isValid'' \<mapsto> JBool False)"
    unfolding debitStep_def using assms(2,4) by (simp only: neg if_True if_False)
  then have "replayStep state txn = state(''isValid'' \<mapsto> JBool False)"
    using assms(1) by (simp add: replayStep_def creditStep_def)
  moreover have "foldl replayStep (state(''isValid'' \<mapsto> JBool False)) rest = state(''isValid'' \<mapsto> JBool False)"
    by (rule replay_invalid) simp
  ultimately show ?thesis by simp
qed

text \<open>
  C8.  The replay of the source and the reference replay do not give the same verdict.  On
  the chain of the scenario (a block mined for A, a transfer of 3 from A to B, a block mined
  for a second miner) the reference replay is valid, with the balances 2, 3 and 5, and the
  proof-of-work, single-reward and reward-amount checks pass, but the replay of the source
  ends invalid and \<open>isValidMineableChain\<close> returns false: the credit of the reward has created
  A's balance as \<open>NaN\<close>.
\<close>

theorem C8_verdict_differs_from_reference:
  assumes m1: "mine sg H kA (MineableChain H) = Some (Inr c1)"
    and m2: "mine sg H kB (addTransaction (MineableTransaction sg kA (Some B) 3) c1) = Some (Inr c2)"
    and B: "B \<noteq> []"
    and A: "getPublicKey sg kA \<noteq> []" "getPublicKey sg kA \<noteq> ''isValid''"
    and dist: "distinct [getPublicKey sg kA, B, getPublicKey sg kB]"
  shows "valid (refReplay c2) \<and>
         balances (refReplay c2) = [getPublicKey sg kA \<mapsto> 2, B \<mapsto> 3, getPublicKey sg kB \<mapsto> 5] \<and>
         validHashes c2 = Inr True \<and> oneRewardPerBlock c2 \<and> notTamperedReward c2 \<and>
         enoughFunds c2 ''isValid'' = Some (JBool False) \<and>
         isValidMineableChain c2 = Inr (Some (JBool False))"
proof -
  let ?tx = "MineableTransaction sg kA (Some B) 3"
  from scenario_reference_replay[OF m1 m2 B dist]
  have ref: "valid (refReplay c2)"
    "balances (refReplay c2) = [getPublicKey sg kA \<mapsto> 2, B \<mapsto> 3, getPublicKey sg kB \<mapsto> 5]"
    by simp_all
  from scenario_chain[OF m1 m2] have vh: "validHashes c2 = Inr True" by simp
  from scenario_checks[OF m1 m2]
  have mt: "map transactions (blocks c2) =
      [[], [MineableTransaction sg kA None 5], [?tx, MineableTransaction sg kB None 5]]"
    and rw: "reward c2 = 5" by simp_all
  have one: "oneRewardPerBlock c2"
  proof -
    have "map (\<lambda>b. length (filter (\<lambda>txn. source txn = Null) (transactions b)) > 1) (blocks c2)
        = map (\<lambda>ts. length (filter (\<lambda>txn. source txn = Null) ts) > 1) (map transactions (blocks c2))"
      by (simp add: comp_def)
    then show ?thesis
      by (simp add: oneRewardPerBlock_def mt MineableTransaction_reward MineableTransaction_transfer[OF B])
  qed
  have nt: "notTamperedReward c2"
  proof -
    have "map (\<lambda>b. filter (\<lambda>txn. source txn = Null \<and> amount txn \<noteq> reward c2) (transactions b)) (blocks c2)
        = map (\<lambda>ts. filter (\<lambda>txn. source txn = Null \<and> amount txn \<noteq> reward c2) ts) (map transactions (blocks c2))"
      by (simp add: comp_def)
    then show ?thesis
      by (simp add: notTamperedReward_def mt rw MineableTransaction_reward MineableTransaction_transfer[OF B])
  qed
  from scenario_code_replay[OF m1 m2 B A] A
  have iv: "enoughFunds c2 ''isValid'' = Some (JBool False)" by auto
  from vh one nt iv have "isValidMineableChain c2 = Inr (Some (JBool False))"
    by (simp add: isValidMineableChain_def)
  with ref vh one nt iv show ?thesis by simp
qed

theorem C8_verdict_differs_from_reference_witness:
  "\<exists>c1 c2. mine demoSigning demoHash ''a'' (MineableChain demoHash) = Some (Inr c1) \<and>
     mine demoSigning demoHash ''m''
       (addTransaction (MineableTransaction demoSigning ''a'' (Some ''pk:b'') 3) c1) = Some (Inr c2) \<and>
     ''pk:b'' \<noteq> [] \<and> getPublicKey demoSigning ''a'' \<noteq> [] \<and>
     getPublicKey demoSigning ''a'' \<noteq> ''isValid'' \<and>
     distinct [getPublicKey demoSigning ''a'', ''pk:b'', getPublicKey demoSigning ''m''] \<and>
     valid (refReplay c2) \<and>
     balances (refReplay c2) ''pk:a'' = Some 2 \<and> balances (refReplay c2) ''pk:b'' = Some 3 \<and>
     balances (refReplay c2) ''pk:m'' = Some 5 \<and>
     isValidMineableChain c2 = Inr (Some (JBool False))"
proof -
  let ?c0 = "MineableChain demoHash"
  have ne: "blocks ?c0 \<noteq> []" and d: "difficulty ?c0 = 2"
    by (simp_all add: MineableChain_def)
  note m1 = demo_mine[OF ne d, of "''a''"]
  let ?c1 = "?c0\<lparr> pendingTransactions := [],
                   blocks := blocks ?c0 @ [calculateHash demoHash (candidateBlock demoSigning ''a'' ?c0) 2] \<rparr>"
  let ?c1' = "addTransaction (MineableTransaction demoSigning ''a'' (Some ''pk:b'') 3) ?c1"
  have ne1: "blocks ?c1' \<noteq> []" and d1: "difficulty ?c1' = 2"
    by (simp_all add: MineableChain_def addTransaction_def)
  note m2 = demo_mine[OF ne1 d1, of "''m''"]
  have B: "''pk:b'' \<noteq> []" by simp
  have A: "getPublicKey demoSigning ''a'' \<noteq> []" "getPublicKey demoSigning ''a'' \<noteq> ''isValid''"
    by (simp_all add: demoSigning_def)
  have dist: "distinct [getPublicKey demoSigning ''a'', ''pk:b'', getPublicKey demoSigning ''m'']"
    by (simp add: demoSigning_def)
  from C8_verdict_differs_from_reference[OF m1 m2 B A dist] m1 m2 B A dist show ?thesis
    by (simp add: demoSigning_def)
qed

end
